theory Spec2Isabelle
  imports Main
begin

section \<open>Text\<close>

text \<open>
  Python text is modelled as \<^typ>\<open>string\<close>: a list of characters with code points
  below 256. On these code points the tables below are the ones of Python's
  \<^verbatim>\<open>str.isspace\<close> and \<^verbatim>\<open>str.upper\<close>, as far as \<^verbatim>\<open>utils.py\<close> depends on them.
\<close>

definition newline :: char where
  "newline = CHR 0x0A"

definition isspace :: "char \<Rightarrow> bool" where
  \<comment> \<open>\<^verbatim>\<open>str.isspace\<close> on one character: TAB, LF, VT, FF, CR, FS, GS, RS, US, space, NEL, NBSP.\<close>
  "isspace c = (c \<in> set [CHR 0x09, CHR 0x0A, CHR 0x0B, CHR 0x0C, CHR 0x0D,
                          CHR 0x1C, CHR 0x1D, CHR 0x1E, CHR 0x1F,
                          CHR 0x20, CHR 0x85, CHR 0xA0])"

definition strip :: "string \<Rightarrow> string" where
  \<comment> \<open>\<^verbatim>\<open>sql.strip()\<close>: leading and trailing whitespace removed.\<close>
  "strip s = rev (dropWhile isspace (rev (dropWhile isspace s)))"

definition upper_char :: "char \<Rightarrow> char" where
  "upper_char c = (let n = (of_char c :: nat) in if 97 \<le> n \<and> n \<le> 122 then char_of (n - 32) else c)"

definition upper :: "string \<Rightarrow> string" where
  \<comment> \<open>\<^verbatim>\<open>str.upper\<close> on the letters a to z. The source only asks whether the result is
      EXPLAIN or SHOW, and no other character below 256 is mapped to one of their letters.\<close>
  "upper s = map upper_char s"

section \<open>Parsed statements\<close>

text \<open>
  The parser is the sqlglot library and is not part of the repository: it is a
  parameter of \<open>validate_sql\<close>. Its trees are modelled by their class and their
  arguments. A \<open>Command\<close> carries its verb, a string, as \<^verbatim>\<open>this\<close>; for every other
  node \<^verbatim>\<open>this\<close> is \<open>Some e\<close> when it is an expression and \<open>None\<close> when it is absent
  or not an expression (a name, a number). The list holds the expressions of all other
  arguments.
\<close>

datatype kind = Select | Describe | CTE | Subquery | Values | Other

datatype expr =
    Command "string option" "expr list"
  | Node kind "expr option" "expr list"

datatype exn =
    ParseError string
  | IndexError
  | ValueError string
  | Exception string
  | DatabaseError string

type_synonym parser = "string \<Rightarrow> exn + expr option list"

fun children :: "expr \<Rightarrow> expr list" where
  "children (Command v es) = es"
| "children (Node k t es) = (case t of None \<Rightarrow> [] | Some e \<Rightarrow> [e]) @ es"

fun walk :: "expr \<Rightarrow> expr list" where
  \<comment> \<open>\<^verbatim>\<open>exp.walk()\<close>: the node itself and every expression below it.\<close>
  "walk (Command v es) = Command v es # concat (map walk es)"
| "walk (Node k t es) =
     Node k t es # (case t of None \<Rightarrow> [] | Some e \<Rightarrow> walk e) @ concat (map walk es)"

fun is_instance :: "expr \<Rightarrow> kind list \<Rightarrow> bool" where
  "is_instance (Command v es) ks = False"
| "is_instance (Node k t es) ks = (k \<in> set ks)"

fun this_is_instance :: "expr \<Rightarrow> kind list \<Rightarrow> bool" where
  \<comment> \<open>\<^verbatim>\<open>isinstance(node.this, (...))\<close>\<close>
  "this_is_instance (Node k (Some e) es) ks = is_instance e ks"
| "this_is_instance _ ks = False"

fun top_level_check :: "expr \<Rightarrow> bool" where
  "top_level_check (Node k t es) = (k = Select \<or> k = Describe)"
| "top_level_check (Command None es) = False"
| "top_level_check (Command (Some v) es) =
     (v \<noteq> [] \<and> (upper v = ''EXPLAIN'' \<or> upper v = ''SHOW''))"

fun check_nodes :: "expr list \<Rightarrow> bool" where
  \<comment> \<open>the loop over \<^verbatim>\<open>exp.walk()\<close>, returning at the first offending node\<close>
  "check_nodes [] = True"
| "check_nodes (node # nodes) =
     (if is_instance node [CTE] \<and> \<not> this_is_instance node [Select, Values] then False
      else if is_instance node [Subquery] \<and> \<not> this_is_instance node [Select, Values] then False
      else check_nodes nodes)"

definition is_read_only_expression :: "expr \<Rightarrow> bool" where
  "is_read_only_expression exp =
     (if \<not> top_level_check exp then False else check_nodes (walk exp))"

definition not_valid_msg :: string where
  "not_valid_msg =
     ''Not a valid SQL statement. Only SELECT, DESCRIBE, SHOW and EXPLAIN statements are allowed.''"

definition invalid_sql_message :: "string \<Rightarrow> string" where
  \<comment> \<open>\<^verbatim>\<open>f"{msg}\nInvalid SQL statement: {sql}"\<close>\<close>
  "invalid_sql_message sql = not_valid_msg @ [newline] @ ''Invalid SQL statement: '' @ sql"

definition validate_sql :: "parser \<Rightarrow> string \<Rightarrow> exn + (bool \<times> string)" where
  "validate_sql parse sql =
     (if strip sql = [] then Inr (False, ''SQL statement cannot be empty or whitespace.'')
      else case parse sql of
        Inl e \<Rightarrow> Inl e
      | Inr processed_sql \<Rightarrow>
          if length processed_sql > 1 then Inr (False, ''Only one SQL statement is allowed at a time.'')
          else (case processed_sql of
                  [] \<Rightarrow> Inl IndexError
                | first # _ \<Rightarrow>
                    (case first of
                       None \<Rightarrow> Inr (False, invalid_sql_message sql)
                     | Some exp \<Rightarrow>
                         if \<not> is_read_only_expression exp then Inr (False, invalid_sql_message sql)
                         else Inr (True, ''This is a read-only SQL statement.''))))"

text \<open>The nodes of a tree, stated without reference to the traversal.\<close>

inductive subnode :: "expr \<Rightarrow> expr \<Rightarrow> bool" where
  self: "subnode e e"
| below: "c \<in> set (children e) \<Longrightarrow> subnode c n \<Longrightarrow> subnode e n"

section \<open>The suspicious-pattern regular expression\<close>

text \<open>
  \<^verbatim>\<open>constants.py\<close> builds the pattern
  \<^verbatim>\<open>(?im)(^|;){re_sp(1)}*(END|COMMIT|ROLLBACK|ABORT)({re_sp(2)}+(WORK|TRANSACTION))?{re_sp(3)}*;\<close>
  and \<^verbatim>\<open>check_for_suspicious_sql\<close> searches the text for it. Each piece of the pattern
  is modelled by a function from the text still to be read to the list of the texts that
  can remain after the piece has matched at its head: the empty list when it cannot
  match, several entries where the matcher has a choice. Alternation is \<open>@\<close>,
  sequence is \<open>concat (map \<dots>)\<close>, and a search succeeds when some way of matching
  exists, which is what a backtracking matcher finds. The group numbers of
  \<^verbatim>\<open>re_mlc(g)\<close> and \<^verbatim>\<open>re_sp(g)\<close> only name the groups; the three copies match alike.

  Flag \<^verbatim>\<open>i\<close>: letters match in either case. Flag \<^verbatim>\<open>m\<close>: \<^verbatim>\<open>^\<close> matches at the start
  of the text and after every newline, \<^verbatim>\<open>$\<close> at the end of the text and before every
  newline. \<^verbatim>\<open>.\<close> matches every character but the newline, \<^verbatim>\<open>\s\<close> the characters with
  the Unicode property White_Space (those below 256 are listed in \<open>re_space\<close>).
\<close>

fun starts_with :: "string \<Rightarrow> string \<Rightarrow> bool" where
  "starts_with [] s = True"
| "starts_with (p # ps) [] = False"
| "starts_with (p # ps) (c # r) = (p = c \<and> starts_with ps r)"

lemma starts_with_length: "starts_with p s \<Longrightarrow> length p \<le> length s"
  by (induction p s rule: starts_with.induct) auto

definition re_space :: "char \<Rightarrow> bool" where
  \<comment> \<open>\<^verbatim>\<open>\s\<close>: TAB, LF, VT, FF, CR, space, NEL, NBSP\<close>
  "re_space c = (c \<in> set [CHR 0x09, CHR 0x0A, CHR 0x0B, CHR 0x0C, CHR 0x0D, CHR 0x20, CHR 0x85, CHR 0xA0])"

fun re_slc_tail :: "string \<Rightarrow> string list" where
  \<comment> \<open>\<^verbatim>\<open>.*?$\<close>\<close>
  "re_slc_tail [] = [[]]"
| "re_slc_tail (c # r) = (if c = newline then [c # r] else re_slc_tail r)"

definition re_slc :: "string \<Rightarrow> string list" where
  \<comment> \<open>\<^verbatim>\<open>re_slc = r"--.*?$"\<close>\<close>
  "re_slc s = (if starts_with ''--'' s then re_slc_tail (drop 2 s) else [])"

definition any_but :: "char list \<Rightarrow> string \<Rightarrow> string list" where
  \<comment> \<open>a class \<^verbatim>\<open>[^...]\<close>: one character that is none of \<open>cs\<close>\<close>
  "any_but cs s = (case s of [] \<Rightarrow> [] | c # r \<Rightarrow> if c \<in> set cs then [] else [r])"

definition lit :: "string \<Rightarrow> string \<Rightarrow> string list" where
  \<comment> \<open>literal text\<close>
  "lit p s = (if starts_with p s then [drop (length p) s] else [])"

text \<open>
  \<^verbatim>\<open>re_mlc(g)\<close> is \<^verbatim>\<open>(?P<mlc>(?:\/\*)(?:[^\/\*]|\/[^\*]|\*[^\/]|(?P>mlc))*(?:\*\/))\<close>.
  \<open>re_mlc_tail\<close> is what follows the opening \<^verbatim>\<open>/*\<close>: the starred group, each
  round one of its four alternatives (the last is the whole group \<^verbatim>\<open>mlc\<close> again), and
  then \<^verbatim>\<open>*/\<close>.
\<close>

function re_mlc_tail :: "string \<Rightarrow> string list" where
  "re_mlc_tail s =
     concat (map re_mlc_tail
       (any_but ''/*'' s
        @ concat (map (any_but ''*'') (lit ''/'' s))
        @ concat (map (any_but ''/'') (lit ''*'' s))
        @ concat (map re_mlc_tail (lit ''/*'' s))))
     @ lit ''*/'' s"
  by pat_completeness auto

lemma any_but_shorter: "r \<in> set (any_but cs s) \<Longrightarrow> length r < length s"
  by (auto simp: any_but_def split: list.splits if_splits)

lemma lit_shorter: "p \<noteq> [] \<Longrightarrow> r \<in> set (lit p s) \<Longrightarrow> length r < length s"
  using starts_with_length [of p s] by (cases p) (auto simp: lit_def split: if_splits)

lemma lit_not_longer: "r \<in> set (lit p s) \<Longrightarrow> length r \<le> length s"
  by (auto simp: lit_def split: if_splits)

lemma re_mlc_alt_shorter:
  assumes "x \<in> set (any_but ''/*'' s
        @ concat (map (any_but ''*'') (lit ''/'' s))
        @ concat (map (any_but ''/'') (lit ''*'' s))
        @ concat (map f (lit ''/*'' s)))"
    and "\<And>y r. y \<in> set (lit ''/*'' s) \<Longrightarrow> r \<in> set (f y) \<Longrightarrow> length r < length y"
  shows "length x < length s"
proof -
  from assms(1) consider
      (a) "x \<in> set (any_but ''/*'' s)"
    | (b) y where "y \<in> set (lit ''/'' s)" "x \<in> set (any_but ''*'' y)"
    | (c) y where "y \<in> set (lit ''*'' s)" "x \<in> set (any_but ''/'' y)"
    | (d) y where "y \<in> set (lit ''/*'' s)" "x \<in> set (f y)"
    by auto
  then show ?thesis
  proof cases
    case a
    then show ?thesis by (rule any_but_shorter)
  next
    case b
    then show ?thesis
      using any_but_shorter [of x "''*''" y] lit_not_longer [of y "''/''" s] by simp
  next
    case c
    then show ?thesis
      using any_but_shorter [of x "''/''" y] lit_not_longer [of y "''*''" s] by simp
  next
    case d
    then show ?thesis
      using assms(2) [of y x] lit_not_longer [of y "''/*''" s] by simp
  qed
qed

lemma re_mlc_tail_dom_shorter:
  "re_mlc_tail_dom s \<Longrightarrow> r \<in> set (re_mlc_tail s) \<Longrightarrow> length r < length s"
proof (induction s arbitrary: r rule: re_mlc_tail.pinduct)
  case (1 s)
  from "1.prems" "1.hyps" consider
      (step) x where "x \<in> set (any_but ''/*'' s
        @ concat (map (any_but ''*'') (lit ''/'' s))
        @ concat (map (any_but ''/'') (lit ''*'' s))
        @ concat (map re_mlc_tail (lit ''/*'' s)))" "r \<in> set (re_mlc_tail x)"
    | (close) "r \<in> set (lit ''*/'' s)"
    by (auto simp: re_mlc_tail.psimps)
  then show ?case
  proof cases
    case step
    have "length x < length s"
      using step(1) "1.IH"(1) by (rule re_mlc_alt_shorter)
    moreover have "length r < length x"
      using "1.IH"(2) [OF step(1)] step(2) .
    ultimately show ?thesis by simp
  next
    case close
    then show ?thesis using lit_shorter [of "''*/''" r s] by simp
  qed
qed

termination re_mlc_tail
proof (relation "measure length")
  show "wf (measure length)" by simp
next
  fix s x assume "x \<in> set (lit ''/*'' s)"
  then show "(x, s) \<in> measure length" using lit_shorter [of "''/*''" x s] by simp
next
  fix s x
  assume "x \<in> set (any_but ''/*'' s
        @ concat (map (any_but ''*'') (lit ''/'' s))
        @ concat (map (any_but ''/'') (lit ''*'' s))
        @ concat (map re_mlc_tail (lit ''/*'' s)))"
    and "\<And>x. x \<in> set (lit ''/*'' s) \<Longrightarrow> re_mlc_tail_dom x"
  then have "length x < length s"
    using re_mlc_tail_dom_shorter by (intro re_mlc_alt_shorter [of x s re_mlc_tail]) auto
  then show "(x, s) \<in> measure length" by simp
qed

declare re_mlc_tail.simps [simp del]

lemma re_mlc_tail_shorter: "r \<in> set (re_mlc_tail s) \<Longrightarrow> length r < length s"
proof (induction s arbitrary: r rule: re_mlc_tail.induct)
  case (1 s)
  from "1.prems" consider
      (step) x where "x \<in> set (any_but ''/*'' s
        @ concat (map (any_but ''*'') (lit ''/'' s))
        @ concat (map (any_but ''/'') (lit ''*'' s))
        @ concat (map re_mlc_tail (lit ''/*'' s)))" "r \<in> set (re_mlc_tail x)"
    | (close) "r \<in> set (lit ''*/'' s)"
    by (subst (asm) re_mlc_tail.simps) auto
  then show ?case
  proof cases
    case step
    have "length x < length s"
      using step(1) "1.IH"(1) by (rule re_mlc_alt_shorter)
    moreover have "length r < length x"
      using "1.IH"(2) [OF step(1)] step(2) .
    ultimately show ?thesis by simp
  next
    case close
    then show ?thesis using lit_shorter [of "''*/''" r s] by simp
  qed
qed

definition re_mlc :: "string \<Rightarrow> string list" where
  \<comment> \<open>the group \<^verbatim>\<open>mlc\<close>\<close>
  "re_mlc s = concat (map re_mlc_tail (lit ''/*'' s))"

definition char_class :: "(char \<Rightarrow> bool) \<Rightarrow> string \<Rightarrow> string list" where
  \<comment> \<open>one character of a class\<close>
  "char_class P s = (case s of [] \<Rightarrow> [] | c # r \<Rightarrow> if P c then [r] else [])"

definition re_sp :: "string \<Rightarrow> string list" where
  \<comment> \<open>\<^verbatim>\<open>({re_slc}|{re_mlc(g)}|\s|;)\<close>\<close>
  "re_sp s = re_slc s @ re_mlc s @ char_class re_space s @ lit '';'' s"

lemma re_slc_tail_not_longer: "r \<in> set (re_slc_tail s) \<Longrightarrow> length r \<le> length s"
  by (induction s) (auto split: if_splits)

lemma re_sp_shorter: "r \<in> set (re_sp s) \<Longrightarrow> length r < length s"
proof -
  assume "r \<in> set (re_sp s)"
  then consider "r \<in> set (re_slc s)" | "r \<in> set (re_mlc s)"
    | "r \<in> set (char_class re_space s)" | "r \<in> set (lit '';'' s)"
    by (auto simp: re_sp_def)
  then show ?thesis
  proof cases
    case 1
    then have "starts_with ''--'' s" and "length r \<le> length (drop 2 s)"
      by (auto simp: re_slc_def dest: re_slc_tail_not_longer split: if_splits)
    then show ?thesis
      using starts_with_length [of "''--''" s] by simp
  next
    case 2
    then obtain y where "y \<in> set (lit ''/*'' s)" "r \<in> set (re_mlc_tail y)"
      by (auto simp: re_mlc_def)
    then show ?thesis
      using re_mlc_tail_shorter [of r y] lit_not_longer [of y "''/*''" s]
      by simp
  next
    case 3
    then show ?thesis by (auto simp: char_class_def split: list.splits if_splits)
  next
    case 4
    then show ?thesis using lit_shorter [of "'';''" r s] by simp
  qed
qed

function re_sp_star :: "string \<Rightarrow> string list" where
  \<comment> \<open>\<^verbatim>\<open>{re_sp(g)}*\<close>\<close>
  "re_sp_star s = concat (map re_sp_star (re_sp s)) @ [s]"
  by pat_completeness auto
termination
  by (relation "measure length") (auto dest: re_sp_shorter)

declare re_sp_star.simps [simp del]

definition re_sp_plus :: "string \<Rightarrow> string list" where
  \<comment> \<open>\<^verbatim>\<open>{re_sp(g)}+\<close>\<close>
  "re_sp_plus s = concat (map re_sp_star (re_sp s))"

definition lit_ci :: "string \<Rightarrow> string \<Rightarrow> string list" where
  \<comment> \<open>literal text of capital letters under flag \<^verbatim>\<open>i\<close>\<close>
  "lit_ci p s = (if upper (take (length p) s) = p then [drop (length p) s] else [])"

definition re_keyword :: "string \<Rightarrow> string list" where
  \<comment> \<open>\<^verbatim>\<open>(END|COMMIT|ROLLBACK|ABORT)\<close>\<close>
  "re_keyword s = lit_ci ''END'' s @ lit_ci ''COMMIT'' s @ lit_ci ''ROLLBACK'' s @ lit_ci ''ABORT'' s"

definition re_work :: "string \<Rightarrow> string list" where
  \<comment> \<open>\<^verbatim>\<open>({re_sp(2)}+(WORK|TRANSACTION))?\<close>\<close>
  "re_work s = concat (map (\<lambda>r. lit_ci ''WORK'' r @ lit_ci ''TRANSACTION'' r) (re_sp_plus s)) @ [s]"

definition re_start :: "char option \<Rightarrow> string \<Rightarrow> string list" where
  \<comment> \<open>\<^verbatim>\<open>(^|;)\<close>, after the character \<open>prev\<close> (\<open>None\<close> at the start of the text)\<close>
  "re_start prev s = (if prev = None \<or> prev = Some newline then [s] else []) @ lit '';'' s"

definition SUSPICIOUS_QUERY_REGEXP :: "char option \<Rightarrow> string \<Rightarrow> string list" where
  \<comment> \<open>the whole pattern, matched at one position of the text\<close>
  "SUSPICIOUS_QUERY_REGEXP prev s =
     concat (map (lit '';'')
       (concat (map re_sp_star
         (concat (map re_work
           (concat (map re_keyword
             (concat (map re_sp_star (re_start prev s))))))))))"

text \<open>\<^verbatim>\<open>regex.compile(SUSPICIOUS_QUERY_REGEXP).search(sql)\<close> tries every position.\<close>

fun search_from :: "char option \<Rightarrow> string \<Rightarrow> bool" where
  "search_from prev [] = (SUSPICIOUS_QUERY_REGEXP prev [] \<noteq> [])"
| "search_from prev (c # r) =
     (SUSPICIOUS_QUERY_REGEXP prev (c # r) \<noteq> [] \<or> search_from (Some c) r)"

definition search :: "string \<Rightarrow> bool" where
  "search s = search_from None s"

definition check_for_suspicious_sql :: "string \<Rightarrow> exn + bool" where
  "check_for_suspicious_sql sql =
     (if search sql
      then Inl (Exception (''SQL contains suspicious patterns, execution rejected: '' @ sql))
      else Inr True)"

section \<open>The tool that executes a statement\<close>

text \<open>
  \<^verbatim>\<open>execute_sql_tool\<close> in \<^verbatim>\<open>server.py\<close>. What it does to the outside is recorded as a
  list of events, in order: messages to the client (\<^verbatim>\<open>ctx.error\<close>), log lines, and the
  query handed to the database (\<^verbatim>\<open>db.run_query\<close>). The database, the rendering of its
  result and the measured time are parameters.
\<close>

datatype event =
    Ctx_error string
  | Logger_info string
  | Logger_error string
  | Run_query string

fun exn_str :: "exn \<Rightarrow> string" where
  "exn_str (ParseError m) = m"
| "exn_str IndexError = ''list index out of range''"
| "exn_str (ValueError m) = m"
| "exn_str (Exception m) = m"
| "exn_str (DatabaseError m) = m"

definition failure_events :: "exn \<Rightarrow> event list" where
  "failure_events e =
     [Logger_error (''Error executing SQL statement: '' @ exn_str e),
      Ctx_error (''Failed to execute SQL statement: '' @ exn_str e)]"

definition result_text :: "string \<Rightarrow> string" where
  "result_text table =
     [newline] @ ''        '' @ table @ [newline, newline] @
     ''        Follow the user's instructions to interpret the results. You want to provide a clear and concise summary of the results, if nothing else is specified.''
     @ [newline] @ ''        ''"

definition execute_sql_tool ::
  "parser \<Rightarrow> (string \<Rightarrow> exn + 'df) \<Rightarrow> ('df \<Rightarrow> string) \<Rightarrow> string \<Rightarrow> string
     \<Rightarrow> event list \<times> (exn + string)" where
  "execute_sql_tool parse run_query to_markdown execution_time_ms sql =
     (case validate_sql parse sql of
        Inl e \<Rightarrow> ([], Inl e)
      | Inr (is_read_only, validation_msg) \<Rightarrow>
          if \<not> is_read_only
          then ([Ctx_error validation_msg], Inl (ValueError validation_msg))
          else
            (case check_for_suspicious_sql sql of
               Inl e \<Rightarrow> (failure_events e, Inl e)
             | Inr _ \<Rightarrow>
                 (case run_query sql of
                    Inl e \<Rightarrow>
                      ([Logger_info (''Executing SQL statement: '' @ sql), Run_query sql]
                         @ failure_events e,
                       Inl e)
                  | Inr result_df \<Rightarrow>
                      ([Logger_info (''Executing SQL statement: '' @ sql), Run_query sql,
                        Logger_info (''SQL statement executed successfully in ''
                                     @ execution_time_ms @ '' ms'')],
                       Inr (result_text (to_markdown result_df))))))"

section \<open>The scan as the specification words it\<close>

text \<open>
  Section 4.2 of the specification describes the guard in words: at a statement boundary,
  a run of separators (a single-line comment to the end of its line, a balanced
  multi-line comment, possibly nested, a whitespace character or a semicolon), one of the
  keywords, optionally WORK or TRANSACTION after further separators, another run of
  separators and a semicolon. The definitions below follow these words; balanced comments
  are recognised by the depth-counting scanner over the comment delimiters that the
  specification names. They are compared with the regular expression further down.
\<close>

fun scan_comment :: "nat \<Rightarrow> string \<Rightarrow> string option" where
  \<comment> \<open>\<open>n\<close> comments are open; the text after the one that closes the outermost\<close>
  "scan_comment 0 s = Some s"
| "scan_comment (Suc n) [] = None"
| "scan_comment (Suc n) [c] = None"
| "scan_comment (Suc n) (c # d # r) =
     (if c = CHR ''*'' \<and> d = CHR ''/'' then scan_comment n r
      else if c = CHR ''/'' \<and> d = CHR ''*'' then scan_comment (Suc (Suc n)) r
      else scan_comment (Suc n) (d # r))"

definition balanced_comment :: "string \<Rightarrow> string option" where
  \<comment> \<open>a multi-line comment at the head of the text, nested ones inside it balanced\<close>
  "balanced_comment s = (if starts_with ''/*'' s then scan_comment 1 (drop 2 s) else None)"

definition line_comment :: "string \<Rightarrow> string option" where
  \<comment> \<open>a single-line comment at the head of the text: \<^verbatim>\<open>--\<close> up to the end of the line\<close>
  "line_comment s =
     (if starts_with ''--'' s then Some (dropWhile (\<lambda>c. c \<noteq> newline) (drop 2 s)) else None)"

definition separator :: "string \<Rightarrow> string list" where
  \<comment> \<open>one separator token at the head of the text\<close>
  "separator s =
     (case line_comment s of Some r \<Rightarrow> [r] | None \<Rightarrow> [])
     @ (case balanced_comment s of Some r \<Rightarrow> [r] | None \<Rightarrow> [])
     @ (case s of [] \<Rightarrow> [] | c # r \<Rightarrow> if re_space c \<or> c = CHR '';'' then [r] else [])"

lemma scan_comment_not_longer: "scan_comment n s = Some r \<Longrightarrow> length r \<le> length s"
  by (induction n s rule: scan_comment.induct) (auto split: if_splits)

lemma separator_shorter: "r \<in> set (separator s) \<Longrightarrow> length r < length s"
proof -
  assume "r \<in> set (separator s)"
  then consider "line_comment s = Some r" | "balanced_comment s = Some r"
    | c where "s = c # r"
    by (auto simp: separator_def split: option.splits list.splits if_splits)
  then show ?thesis
  proof cases
    case 1
    then have "starts_with ''--'' s" "length r \<le> length (drop 2 s)"
      using length_dropWhile_le [of "\<lambda>c. c \<noteq> newline" "drop 2 s"]
      by (auto simp: line_comment_def split: if_splits)
    then show ?thesis using starts_with_length [of "''--''" s] by simp
  next
    case 2
    then have "starts_with ''/*'' s" "length r \<le> length (drop 2 s)"
      by (auto simp: balanced_comment_def dest: scan_comment_not_longer split: if_splits)
    then show ?thesis using starts_with_length [of "''/*''" s] by simp
  next
    case 3
    then show ?thesis by simp
  qed
qed

function separators :: "string \<Rightarrow> string list" where
  \<comment> \<open>a run of separator tokens, possibly empty\<close>
  "separators s = s # concat (map separators (separator s))"
  by pat_completeness auto
termination
  by (relation "measure length") (auto dest: separator_shorter)

declare separators.simps [simp del]

definition keyword :: "string \<Rightarrow> string list" where
  \<comment> \<open>END, COMMIT, ROLLBACK or ABORT, in any casing\<close>
  "keyword s = lit_ci ''END'' s @ lit_ci ''COMMIT'' s @ lit_ci ''ROLLBACK'' s @ lit_ci ''ABORT'' s"

definition work_or_transaction :: "string \<Rightarrow> string list" where
  \<comment> \<open>nothing, or at least one separator and then WORK or TRANSACTION\<close>
  "work_or_transaction s =
     s # concat (map (\<lambda>r. lit_ci ''WORK'' r @ lit_ci ''TRANSACTION'' r)
                     (concat (map separators (separator s))))"

definition escape_at :: "string \<Rightarrow> bool" where
  \<comment> \<open>the transaction-escape sequence, read from a boundary on\<close>
  "escape_at s =
     (\<exists>r1 \<in> set (separators s). \<exists>r2 \<in> set (keyword r1). \<exists>r3 \<in> set (work_or_transaction r2).
      \<exists>r4 \<in> set (separators r3). starts_with '';'' r4)"

fun scan_from :: "(char option \<Rightarrow> bool) \<Rightarrow> char option \<Rightarrow> string \<Rightarrow> bool" where
  \<comment> \<open>a match anywhere in the text; \<open>prev\<close> is the character before the position\<close>
  "scan_from boundary prev [] = (boundary prev \<and> escape_at [])"
| "scan_from boundary prev (c # r) =
     ((boundary prev \<and> escape_at (c # r)) \<or> scan_from boundary (Some c) r)"

text \<open>
  The boundary as the specification states it (start of the text, or right after a
  semicolon), and with the start of every line added.
\<close>

definition statement_start :: "char option \<Rightarrow> bool" where
  "statement_start prev = (prev = None \<or> prev = Some (CHR '';''))"

definition line_or_statement_start :: "char option \<Rightarrow> bool" where
  "line_or_statement_start prev = (prev = None \<or> prev = Some newline \<or> prev = Some (CHR '';''))"

definition spec_scan :: "string \<Rightarrow> bool" where
  "spec_scan s = scan_from statement_start None s"

definition spec_scan_lines :: "string \<Rightarrow> bool" where
  "spec_scan_lines s = scan_from line_or_statement_start None s"

fun contains :: "string \<Rightarrow> string \<Rightarrow> bool" where
  \<comment> \<open>\<open>p\<close> occurs somewhere in the text\<close>
  "contains p [] = starts_with p []"
| "contains p (c # r) = (starts_with p (c # r) \<or> contains p r)"

section \<open>Auxiliary definitions\<close>

text \<open>
  Texts in which neither \<^verbatim>\<open>**/\<close> nor \<^verbatim>\<open>//*\<close> occurs; the comment matcher run \<open>n\<close>
  times in a row; the pattern after its first group.
\<close>

definition delimiters_apart :: "string \<Rightarrow> bool" where
  "delimiters_apart s = (\<not> contains ''**/'' s \<and> \<not> contains ''//*'' s)"

fun mlc_tails :: "nat \<Rightarrow> string \<Rightarrow> string list" where
  "mlc_tails 0 s = [s]"
| "mlc_tails (Suc n) s = concat (map (mlc_tails n) (re_mlc_tail s))"

definition re_tail :: "string \<Rightarrow> string list" where
  "re_tail s =
     concat (map (lit '';'')
       (concat (map re_sp_star
         (concat (map re_work
           (concat (map re_keyword (re_sp_star s))))))))"

subsection \<open>Sample data\<close>

text \<open>
  Sample parser results, as sqlglot gives them for statements of the repository's tests:
  a select, a comment alone (no statement), two statements, a CTE whose body is a DELETE,
  a SHOW command; on any other text this sample parser raises, as sqlglot does on text
  that is not SQL. The sample database answers one query.
\<close>

definition select_1 :: expr where
  "select_1 = Node Select None [Node Other None []]"

definition with_delete :: expr where
  "with_delete =
     Node Select None
       [Node Other None [Node CTE (Some (Node Other None [])) [Node Other None []]],
        Node Other None []]"

definition sample_parse :: parser where
  "sample_parse sql =
     (if sql = ''SELECT 1;'' then Inr [Some select_1]
      else if sql = ''-- just a comment'' then Inr [None]
      else if sql = ''SELECT 1; SELECT 2;'' then Inr [Some select_1, Some select_1]
      else if sql = ''WITH x AS (DELETE FROM users RETURNING *) SELECT * FROM x;''
        then Inr [Some with_delete]
      else if sql = ''SHOW TABLES;'' then Inr [Some (Command (Some ''SHOW'') [])]
      else Inl (ParseError ''Invalid expression / Unexpected token''))"

definition sample_db :: "string \<Rightarrow> exn + string" where
  "sample_db sql = (if sql = ''SELECT 1;'' then Inr ''| 1 |'' else Inl (DatabaseError ''syntax error''))"

section \<open>Validation\<close>

lemma strip_empty_iff: "strip s = [] \<longleftrightarrow> (\<forall>c \<in> set s. isspace c)"
proof
  assume "strip s = []"
  then have all: "\<forall>x \<in> set (dropWhile isspace s). isspace x"
    by (simp add: strip_def)
  have "dropWhile isspace s = []"
  proof (cases "dropWhile isspace s")
    case Nil
    then show ?thesis .
  next
    case (Cons x xs)
    then have "\<not> isspace x"
      using hd_dropWhile [of isspace s] by simp
    with all Cons show ?thesis by simp
  qed
  then show "\<forall>c \<in> set s. isspace c" by simp
next
  assume "\<forall>c \<in> set s. isspace c"
  then have "dropWhile isspace s = []" by simp
  then have "strip s = rev (dropWhile isspace (rev []))"
    unfolding strip_def by (simp only:)
  then show "strip s = []" by simp
qed

lemma set_walk: "set (walk e) = {n. subnode e n}"
proof (intro set_eqI iffI; clarify)
  fix n assume "n \<in> set (walk e)"
  then show "subnode e n"
  proof (induction e arbitrary: n rule: walk.induct)
    case (1 v es)
    then show ?case
      by (auto intro: subnode.self subnode.below)
  next
    case (2 k t es)
    then show ?case
      by (auto intro: subnode.self subnode.below split: option.splits)
  qed
next
  fix n assume "subnode e n"
  then show "n \<in> set (walk e)"
  proof (induction rule: subnode.induct)
    case (self e)
    then show ?case by (cases e) auto
  next
    case (below c e n)
    then show ?case by (cases e) (auto split: option.splits)
  qed
qed

lemma check_nodes_iff:
  "check_nodes ns \<longleftrightarrow>
     (\<forall>n \<in> set ns. is_instance n [CTE] \<or> is_instance n [Subquery] \<longrightarrow> this_is_instance n [Select, Values])"
  by (induction ns) auto

lemma top_level_check_iff:
  "top_level_check e \<longleftrightarrow>
     is_instance e [Select] \<or> is_instance e [Describe] \<or>
     (\<exists>v es. e = Command (Some v) es \<and> (upper v = ''EXPLAIN'' \<or> upper v = ''SHOW''))"
  by (cases e rule: top_level_check.cases) (auto simp: upper_def)

text \<open>
  Claim C7. When \<^verbatim>\<open>sql.strip()\<close> is empty, \<open>validate_sql\<close> rejects with the message
  "SQL statement cannot be empty or whitespace.", whatever the parser would do with the
  text: the result does not depend on the parser, which is not called.
\<close>

theorem validate_sql_blank:
  "strip sql = [] \<Longrightarrow>
   validate_sql parse sql = Inr (False, ''SQL statement cannot be empty or whitespace.'')"
  by (simp add: validate_sql_def)

theorem validate_sql_blank_witness:
  "strip [CHR '' '', CHR 0x09, newline] = [] \<and>
   validate_sql sample_parse [CHR '' '', CHR 0x09, newline] =
     Inr (False, ''SQL statement cannot be empty or whitespace.'')"
proof -
  have h: "strip [CHR '' '', CHR 0x09, newline] = []"
    by (simp add: strip_def isspace_def newline_def)
  show ?thesis using h validate_sql_blank [OF h, of sample_parse] by simp
qed

text \<open>
  Claim C6. When the parser returns more than one statement, \<open>validate_sql\<close> rejects
  with exactly "Only one SQL statement is allowed at a time.", whatever the statements
  are. (A blank text never reaches the parser, so the text is taken to be non-blank.)
\<close>

theorem validate_sql_many:
  "strip sql \<noteq> [] \<Longrightarrow> parse sql = Inr ps \<Longrightarrow> length ps > 1 \<Longrightarrow>
   validate_sql parse sql = Inr (False, ''Only one SQL statement is allowed at a time.'')"
  by (simp add: validate_sql_def)

lemma strip_samples:
  "strip ''SELECT 1;'' \<noteq> []" "strip ''SELECT 1; SELECT 2;'' \<noteq> []"
  "strip ''-- just a comment'' \<noteq> []" "strip ''SELECT (('' \<noteq> []"
  "strip ''WITH x AS (DELETE FROM users RETURNING *) SELECT * FROM x;'' \<noteq> []"
  by (simp_all add: strip_empty_iff isspace_def)

theorem validate_sql_many_witness:
  "strip ''SELECT 1; SELECT 2;'' \<noteq> [] \<and>
   sample_parse ''SELECT 1; SELECT 2;'' = Inr [Some select_1, Some select_1] \<and>
   length [Some select_1, Some select_1] > 1 \<and>
   validate_sql sample_parse ''SELECT 1; SELECT 2;'' =
     Inr (False, ''Only one SQL statement is allowed at a time.'')"
proof -
  have p: "sample_parse ''SELECT 1; SELECT 2;'' = Inr [Some select_1, Some select_1]"
    by (simp add: sample_parse_def)
  have l: "length [Some select_1, Some select_1] > 1" by simp
  show ?thesis
    using validate_sql_many [of "''SELECT 1; SELECT 2;''" sample_parse, OF strip_samples(2) p l]
      strip_samples(2) p by simp
qed

text \<open>
  Claim C10. Whenever \<open>validate_sql\<close> accepts, its message is exactly
  "This is a read-only SQL statement.".
\<close>

theorem validate_sql_accept_message:
  "validate_sql parse sql = Inr (True, m) \<Longrightarrow> m = ''This is a read-only SQL statement.''"
  by (auto simp: validate_sql_def split: if_splits sum.splits list.splits option.splits)

lemma validate_select_1:
  "validate_sql sample_parse ''SELECT 1;'' = Inr (True, ''This is a read-only SQL statement.'')"
  using strip_samples(1)
  by (simp add: validate_sql_def sample_parse_def select_1_def is_read_only_expression_def)

theorem validate_sql_accept_message_witness:
  "validate_sql sample_parse ''SELECT 1;'' = Inr (True, ''This is a read-only SQL statement.'') \<and>
   ''This is a read-only SQL statement.'' = ''This is a read-only SQL statement.''"
  using validate_sql_accept_message [OF validate_select_1] validate_select_1 by simp

text \<open>
  Claim C1. For a non-blank text that parses to exactly one statement \<open>e\<close>,
  \<open>validate_sql\<close> accepts exactly when \<open>e\<close> is a Select, a Describe, or a Command
  whose verb is EXPLAIN or SHOW in any casing, and every CTE node and every Subquery
  node anywhere in the tree of \<open>e\<close> has a Select or a Values as its body; otherwise it
  rejects, with the "Not a valid SQL statement" message.
\<close>

theorem validate_sql_accepts_iff:
  assumes "strip sql \<noteq> []" and "parse sql = Inr [Some e]"
  shows "validate_sql parse sql =
           (if (is_instance e [Select] \<or> is_instance e [Describe] \<or>
                (\<exists>v es. e = Command (Some v) es \<and> (upper v = ''EXPLAIN'' \<or> upper v = ''SHOW'')))
               \<and> (\<forall>n. subnode e n \<and> (is_instance n [CTE] \<or> is_instance n [Subquery])
                       \<longrightarrow> this_is_instance n [Select, Values])
            then Inr (True, ''This is a read-only SQL statement.'')
            else Inr (False, invalid_sql_message sql))"
proof -
  have "is_read_only_expression e \<longleftrightarrow>
          (is_instance e [Select] \<or> is_instance e [Describe] \<or>
                (\<exists>v es. e = Command (Some v) es \<and> (upper v = ''EXPLAIN'' \<or> upper v = ''SHOW'')))
               \<and> (\<forall>n. subnode e n \<and> (is_instance n [CTE] \<or> is_instance n [Subquery])
                       \<longrightarrow> this_is_instance n [Select, Values])"
    unfolding is_read_only_expression_def check_nodes_iff set_walk top_level_check_iff [symmetric]
    by auto
  then show ?thesis
    using assms by (simp add: validate_sql_def)
qed

theorem validate_sql_accepts_iff_witness:
  "strip ''SELECT 1;'' \<noteq> [] \<and> sample_parse ''SELECT 1;'' = Inr [Some select_1] \<and>
   validate_sql sample_parse ''SELECT 1;'' =
           (if (is_instance select_1 [Select] \<or> is_instance select_1 [Describe] \<or>
                (\<exists>v es. select_1 = Command (Some v) es \<and> (upper v = ''EXPLAIN'' \<or> upper v = ''SHOW'')))
               \<and> (\<forall>n. subnode select_1 n \<and> (is_instance n [CTE] \<or> is_instance n [Subquery])
                       \<longrightarrow> this_is_instance n [Select, Values])
            then Inr (True, ''This is a read-only SQL statement.'')
            else Inr (False, invalid_sql_message ''SELECT 1;''))"
proof -
  have p: "sample_parse ''SELECT 1;'' = Inr [Some select_1]"
    by (simp add: sample_parse_def)
  show ?thesis
    using validate_sql_accepts_iff [of "''SELECT 1;''" sample_parse select_1, OF strip_samples(1) p]
      strip_samples(1) p by simp
qed

lemma validate_with_delete:
  "validate_sql sample_parse ''WITH x AS (DELETE FROM users RETURNING *) SELECT * FROM x;'' =
     Inr (False, invalid_sql_message ''WITH x AS (DELETE FROM users RETURNING *) SELECT * FROM x;'')"
  using strip_samples(5)
  by (simp add: validate_sql_def sample_parse_def with_delete_def is_read_only_expression_def)

lemma explain_any_casing:
  "top_level_check (Command (Some ''eXpLaIn'') [])"
  "\<not> top_level_check (Command (Some ''EXPLAINS'') [])"
  by code_simp+

lemma validate_show_tables:
  "validate_sql sample_parse ''SHOW TABLES;'' = Inr (True, ''This is a read-only SQL statement.'')"
proof -
  have "strip ''SHOW TABLES;'' \<noteq> []"
    by (simp add: strip_empty_iff isspace_def)
  then show ?thesis
    by (simp add: validate_sql_def sample_parse_def is_read_only_expression_def upper_def
        upper_char_def)
qed

text \<open>
  Claim C2 as stated fails: \<open>validate_sql\<close> has no handler around the parser, so on text
  the parser raises on, the error propagates and no verdict is returned.
\<close>

theorem validate_sql_parse_error_counterexample:
  "validate_sql sample_parse ''SELECT (('' = Inl (ParseError ''Invalid expression / Unexpected token'')"
  using strip_samples(4) by (simp add: validate_sql_def sample_parse_def)

text \<open>
  Claim C2, as amended. Whenever the parser returns a non-empty list, \<open>validate_sql\<close>
  returns a verdict. When the parser returns a single empty entry for a non-blank text
  (no statement: a comment alone), the verdict is a rejection whose message is the
  "Not a valid SQL statement" sentence, a newline, "Invalid SQL statement: " and the
  original text. When the parser raises on a non-blank text, \<open>validate_sql\<close> returns no
  verdict: the parser's error leaves the call.
\<close>

theorem validate_sql_parser_outcomes:
  "(parse sql = Inr ps \<and> ps \<noteq> [] \<longrightarrow> (\<exists>v. validate_sql parse sql = Inr v)) \<and>
   (strip sql \<noteq> [] \<and> parse sql = Inr [None] \<longrightarrow>
      validate_sql parse sql =
        Inr (False,
             ''Not a valid SQL statement. Only SELECT, DESCRIBE, SHOW and EXPLAIN statements are allowed.''
             @ [CHR 0x0A] @ ''Invalid SQL statement: '' @ sql)) \<and>
   (strip sql \<noteq> [] \<and> parse sql = Inl e \<longrightarrow> validate_sql parse sql = Inl e)"
  by (auto simp: validate_sql_def invalid_sql_message_def not_valid_msg_def newline_def
      split: list.splits option.splits)

theorem validate_sql_parser_outcomes_witness:
  "(sample_parse ''-- just a comment'' = Inr [None] \<and> [None :: expr option] \<noteq> [] \<and>
    strip ''-- just a comment'' \<noteq> [] \<and>
    (\<exists>v. validate_sql sample_parse ''-- just a comment'' = Inr v) \<and>
    validate_sql sample_parse ''-- just a comment'' =
        Inr (False,
             ''Not a valid SQL statement. Only SELECT, DESCRIBE, SHOW and EXPLAIN statements are allowed.''
             @ [CHR 0x0A] @ ''Invalid SQL statement: '' @ ''-- just a comment'')) \<and>
   (strip ''SELECT (('' \<noteq> [] \<and>
    sample_parse ''SELECT (('' = Inl (ParseError ''Invalid expression / Unexpected token'') \<and>
    validate_sql sample_parse ''SELECT (('' = Inl (ParseError ''Invalid expression / Unexpected token''))"
proof -
  have p1: "sample_parse ''-- just a comment'' = Inr [None]"
    by (simp add: sample_parse_def)
  have p2: "sample_parse ''SELECT (('' = Inl (ParseError ''Invalid expression / Unexpected token'')"
    by (simp add: sample_parse_def)
  show ?thesis
    using validate_sql_parser_outcomes [of sample_parse "''-- just a comment''" "[None]"]
      validate_sql_parser_outcomes [of sample_parse "''SELECT ((''" _
        "ParseError ''Invalid expression / Unexpected token''"]
      p1 p2 strip_samples(3) strip_samples(4)
    by auto
qed

section \<open>The regular expression and the specification's scan\<close>

subsection \<open>Comments\<close>

lemma apart_Cons: "delimiters_apart (c # r) \<Longrightarrow> delimiters_apart r"
  by (simp add: delimiters_apart_def)

lemma apart_drop: "delimiters_apart s \<Longrightarrow> delimiters_apart (drop n s)"
proof (induction n arbitrary: s)
  case 0
  then show ?case by simp
next
  case (Suc n)
  then show ?case by (cases s) (auto dest: apart_Cons)
qed

lemma apart_dropWhile: "delimiters_apart s \<Longrightarrow> delimiters_apart (dropWhile P s)"
  by (induction s) (auto dest: apart_Cons)

lemma apart_stars:
  "delimiters_apart (c # d # e # r) \<Longrightarrow> \<not> (c = CHR ''*'' \<and> d = CHR ''*'' \<and> e = CHR ''/'')"
  by (auto simp: delimiters_apart_def)

lemma apart_slashes:
  "delimiters_apart (c # d # e # r) \<Longrightarrow> \<not> (c = CHR ''/'' \<and> d = CHR ''/'' \<and> e = CHR ''*'')"
  by (auto simp: delimiters_apart_def)

lemma re_mlc_tail_Nil: "re_mlc_tail [] = []"
  by (subst re_mlc_tail.simps) (simp add: any_but_def lit_def)

lemma re_mlc_tail_other:
  "c \<noteq> CHR ''/'' \<Longrightarrow> c \<noteq> CHR ''*'' \<Longrightarrow> re_mlc_tail (c # r) = re_mlc_tail r"
  by (subst re_mlc_tail.simps) (simp add: any_but_def lit_def)

lemma re_mlc_tail_single: "re_mlc_tail [c] = []"
  by (subst re_mlc_tail.simps) (simp add: any_but_def lit_def re_mlc_tail_Nil)

lemma re_mlc_tail_close: "re_mlc_tail (CHR ''*'' # CHR ''/'' # r) = [r]"
  by (subst re_mlc_tail.simps) (simp add: any_but_def lit_def)

lemma re_mlc_tail_open:
  "re_mlc_tail (CHR ''/'' # CHR ''*'' # r) = concat (map re_mlc_tail (re_mlc_tail r))"
  by (subst re_mlc_tail.simps) (simp add: any_but_def lit_def)

lemma re_mlc_tail_slash:
  "d \<noteq> CHR ''*'' \<Longrightarrow> re_mlc_tail (CHR ''/'' # d # r) = re_mlc_tail r"
  by (subst re_mlc_tail.simps) (simp add: any_but_def lit_def)

lemma re_mlc_tail_star:
  "d \<noteq> CHR ''/'' \<Longrightarrow> re_mlc_tail (CHR ''*'' # d # r) = re_mlc_tail r"
  by (subst re_mlc_tail.simps) (simp add: any_but_def lit_def)

lemma scan_comment_skip:
  assumes "d \<noteq> CHR ''*''" and "\<not> (d = CHR ''/'' \<and> starts_with ''*'' r)"
  shows "scan_comment (Suc n) (d # r) = scan_comment (Suc n) r"
  using assms by (cases r) auto

lemma scan_comment_skip_star:
  assumes "\<not> starts_with ''/'' r"
  shows "scan_comment (Suc n) (CHR ''*'' # r) = scan_comment (Suc n) r"
  using assms by (cases r) auto

lemma mlc_tails_Suc_map:
  "concat (map (mlc_tails (Suc m)) xs) = concat (map (mlc_tails m) (concat (map re_mlc_tail xs)))"
  by (induction xs) auto

lemma mlc_tails_scan:
  "delimiters_apart s \<Longrightarrow>
   mlc_tails n s = (case scan_comment n s of Some r \<Rightarrow> [r] | None \<Rightarrow> [])"
proof (induction "length s" arbitrary: s n rule: less_induct)
  case less
  show ?case
  proof (cases n)
    case 0
    then show ?thesis by simp
  next
    case (Suc m)
    show ?thesis
    proof (cases s)
      case Nil
      then show ?thesis using Suc by (simp add: re_mlc_tail_Nil)
    next
      case (Cons c t)
      note s = Cons
      have apart_t: "delimiters_apart t"
        using less.prems s by (auto dest: apart_Cons)
      show ?thesis
      proof (cases t)
        case Nil
        then show ?thesis using Suc s by (simp add: re_mlc_tail_single)
      next
        case (Cons d r)
        note t = Cons
        have apart_r: "delimiters_apart r"
          using apart_t t by (auto dest: apart_Cons)
        have IH_t: "\<And>k. mlc_tails k t = (case scan_comment k t of Some r \<Rightarrow> [r] | None \<Rightarrow> [])"
          using less.hyps [of t] apart_t s by simp
        have IH_r: "\<And>k. mlc_tails k r = (case scan_comment k r of Some r \<Rightarrow> [r] | None \<Rightarrow> [])"
          using less.hyps [of r] apart_r s t by simp
        consider (close) "c = CHR ''*''" "d = CHR ''/''"
          | (nested) "c = CHR ''/''" "d = CHR ''*''"
          | (slash) "c = CHR ''/''" "d \<noteq> CHR ''*''"
          | (star) "c = CHR ''*''" "d \<noteq> CHR ''/''"
          | (other) "c \<noteq> CHR ''/''" "c \<noteq> CHR ''*''"
          by blast
        then show ?thesis
        proof cases
          case close
          then show ?thesis
            using Suc s t IH_r [of m] by (simp add: re_mlc_tail_close)
        next
          case nested
          have "mlc_tails (Suc m) s = mlc_tails (Suc (Suc m)) r"
            using nested s t by (simp add: re_mlc_tail_open mlc_tails_Suc_map)
          then show ?thesis
            using Suc s t nested IH_r [of "Suc (Suc m)"] by simp
        next
          case slash
          have "mlc_tails (Suc m) s = mlc_tails (Suc m) r"
            using slash s t by (simp add: re_mlc_tail_slash)
          moreover have "scan_comment (Suc m) s = scan_comment (Suc m) t"
            using slash s t by simp
          moreover have "scan_comment (Suc m) t = scan_comment (Suc m) r"
            unfolding t
          proof (rule scan_comment_skip)
            show "d \<noteq> CHR ''*''" by (rule slash(2))
            show "\<not> (d = CHR ''/'' \<and> starts_with ''*'' r)"
              using apart_slashes [of c d] less.prems s t slash(1) by (cases r) auto
          qed
          ultimately show ?thesis
            using Suc IH_r [of "Suc m"] by simp
        next
          case star
          have "mlc_tails (Suc m) s = mlc_tails (Suc m) r"
            using star s t by (simp add: re_mlc_tail_star)
          moreover have "scan_comment (Suc m) s = scan_comment (Suc m) t"
            using star s t by simp
          moreover have "scan_comment (Suc m) t = scan_comment (Suc m) r"
          proof (cases "d = CHR ''*''")
            case True
            have "\<not> starts_with ''/'' r"
              using apart_stars [of c d] less.prems s t star(1) True by (cases r) auto
            then show ?thesis
              unfolding t True by (rule scan_comment_skip_star)
          next
            case False
            then show ?thesis
              unfolding t using star(2) by (intro scan_comment_skip) auto
          qed
          ultimately show ?thesis
            using Suc IH_r [of "Suc m"] by simp
        next
          case other
          have "mlc_tails (Suc m) s = mlc_tails (Suc m) t"
            using other s by (simp add: re_mlc_tail_other)
          moreover have "scan_comment (Suc m) s = scan_comment (Suc m) t"
            using other s t by simp
          ultimately show ?thesis
            using Suc IH_t [of "Suc m"] by simp
        qed
      qed
    qed
  qed
qed

lemma mlc_tails_0: "concat (map (mlc_tails 0) xs) = xs"
  by (induction xs) auto

lemma re_mlc_balanced:
  assumes "delimiters_apart s"
  shows "re_mlc s = (case balanced_comment s of Some r \<Rightarrow> [r] | None \<Rightarrow> [])"
proof (cases "starts_with ''/*'' s")
  case True
  have "re_mlc s = mlc_tails (Suc 0) (drop 2 s)"
    using True by (simp add: re_mlc_def lit_def mlc_tails_0 numeral_2_eq_2)
  also have "\<dots> = (case scan_comment (Suc 0) (drop 2 s) of Some r \<Rightarrow> [r] | None \<Rightarrow> [])"
    using assms by (intro mlc_tails_scan apart_drop)
  finally show ?thesis
    using True by (simp add: balanced_comment_def)
next
  case False
  then show ?thesis by (simp add: re_mlc_def lit_def balanced_comment_def)
qed

lemma re_slc_tail_eq: "re_slc_tail s = [dropWhile (\<lambda>c. c \<noteq> newline) s]"
  by (induction s) auto

lemma re_slc_line_comment:
  "re_slc s = (case line_comment s of Some r \<Rightarrow> [r] | None \<Rightarrow> [])"
  by (simp add: re_slc_def line_comment_def re_slc_tail_eq)

lemma char_class_or_semicolon:
  "set (char_class re_space s @ lit '';'' s) =
   set (case s of [] \<Rightarrow> [] | c # r \<Rightarrow> if re_space c \<or> c = CHR '';'' then [r] else [])"
  by (cases s) (auto simp: char_class_def lit_def)

lemma re_sp_separator:
  assumes "delimiters_apart s"
  shows "set (re_sp s) = set (separator s)"
proof -
  have "set (re_sp s) = set (re_slc s) \<union> set (re_mlc s) \<union> set (char_class re_space s @ lit '';'' s)"
    by (simp add: re_sp_def Un_assoc)
  also have "\<dots> = set (separator s)"
    unfolding char_class_or_semicolon re_mlc_balanced [OF assms] re_slc_line_comment separator_def
    by (simp add: Un_assoc)
  finally show ?thesis .
qed

subsection \<open>Separator runs and the whole pattern\<close>

lemma scan_comment_apart:
  "scan_comment n s = Some r \<Longrightarrow> delimiters_apart s \<Longrightarrow> delimiters_apart r"
proof (induction n s rule: scan_comment.induct)
  case (4 n c d r')
  have "delimiters_apart (d # r')" "delimiters_apart r'"
    using "4.prems"(2) by (auto dest: apart_Cons)
  then show ?case
    using "4.IH" "4.prems"(1) by (auto split: if_splits)
qed auto

lemma separator_apart:
  assumes "r \<in> set (separator s)" and "delimiters_apart s"
  shows "delimiters_apart r"
proof -
  from assms(1) consider "line_comment s = Some r" | "balanced_comment s = Some r"
    | c where "s = c # r"
    by (auto simp: separator_def split: option.splits list.splits if_splits)
  then show ?thesis
  proof cases
    case 1
    then show ?thesis
      using assms(2) by (auto simp: line_comment_def intro: apart_drop apart_dropWhile split: if_splits)
  next
    case 2
    then show ?thesis
      using assms(2) scan_comment_apart [of 1 "drop 2 s" r] apart_drop [of s 2]
      by (auto simp: balanced_comment_def split: if_splits)
  next
    case 3
    then show ?thesis using assms(2) by (auto dest: apart_Cons)
  qed
qed

lemma separators_apart:
  "r \<in> set (separators s) \<Longrightarrow> delimiters_apart s \<Longrightarrow> delimiters_apart r"
proof (induction s arbitrary: r rule: separators.induct)
  case (1 s)
  from "1.prems"(1) consider "r = s"
    | x where "x \<in> set (separator s)" "r \<in> set (separators x)"
    by (subst (asm) separators.simps) auto
  then show ?case
  proof cases
    case 1
    then show ?thesis using "1.prems"(2) by simp
  next
    case 2
    then show ?thesis
      using "1.IH" [of x r] separator_apart [of x s] "1.prems"(2) by simp
  qed
qed

lemma lit_ci_apart: "r \<in> set (lit_ci p s) \<Longrightarrow> delimiters_apart s \<Longrightarrow> delimiters_apart r"
  by (auto simp: lit_ci_def intro: apart_drop split: if_splits)

lemma re_sp_star_separators:
  "delimiters_apart s \<Longrightarrow> set (re_sp_star s) = set (separators s)"
proof (induction s rule: re_sp_star.induct)
  case (1 s)
  have "set (re_sp_star s) = insert s (\<Union>x \<in> set (re_sp s). set (re_sp_star x))"
    by (subst re_sp_star.simps) simp
  also have "\<dots> = insert s (\<Union>x \<in> set (separator s). set (separators x))"
    using "1.IH" "1.prems" separator_apart [of _ s] by (simp add: re_sp_separator)
  also have "\<dots> = set (separators s)"
    by (subst (2) separators.simps) simp
  finally show ?case .
qed

lemma re_sp_plus_separators:
  assumes "delimiters_apart s"
  shows "set (re_sp_plus s) = set (concat (map separators (separator s)))"
  using assms re_sp_star_separators separator_apart [of _ s]
  by (simp add: re_sp_plus_def re_sp_separator)

lemma lit_semicolon: "(lit '';'' s \<noteq> []) = starts_with '';'' s"
  by (simp add: lit_def)

lemma escape_at_Nil: "\<not> escape_at []"
proof -
  have "separators [] = [[]]"
    by (subst separators.simps) (simp add: separator_def line_comment_def balanced_comment_def)
  moreover have "keyword [] = []"
    by (simp add: keyword_def lit_ci_def upper_def)
  ultimately show ?thesis
    by (simp add: escape_at_def)
qed

lemma bex_set_cong:
  "set xs = set ys \<Longrightarrow> (\<And>x. x \<in> set ys \<Longrightarrow> P x = Q x) \<Longrightarrow>
   (\<exists>x \<in> set xs. P x) = (\<exists>x \<in> set ys. Q x)"
  by auto

lemma regexp_re_tail: "SUSPICIOUS_QUERY_REGEXP prev s = concat (map re_tail (re_start prev s))"
  by (simp add: SUSPICIOUS_QUERY_REGEXP_def re_tail_def re_start_def lit_def)

lemma keyword_apart: "r \<in> set (keyword s) \<Longrightarrow> delimiters_apart s \<Longrightarrow> delimiters_apart r"
  by (auto simp: keyword_def dest: lit_ci_apart)

lemma work_or_transaction_apart:
  assumes "r \<in> set (work_or_transaction s)" and "delimiters_apart s"
  shows "delimiters_apart r"
proof -
  from assms(1) consider "r = s"
    | x y where "x \<in> set (separator s)" "y \<in> set (separators x)"
        "r \<in> set (lit_ci ''WORK'' y) \<or> r \<in> set (lit_ci ''TRANSACTION'' y)"
    by (auto simp: work_or_transaction_def)
  then show ?thesis
  proof cases
    case 1
    then show ?thesis using assms(2) by simp
  next
    case 2
    have "delimiters_apart x" using 2(1) assms(2) by (rule separator_apart)
    then have "delimiters_apart y" using 2(2) by (intro separators_apart [of y x])
    then show ?thesis using 2(3) by (auto dest: lit_ci_apart)
  qed
qed

lemma re_work_set:
  assumes "delimiters_apart s"
  shows "set (re_work s) = set (work_or_transaction s)"
  using re_sp_plus_separators [OF assms] by (auto simp: re_work_def work_or_transaction_def)

lemma re_tail_escape_at:
  assumes "delimiters_apart s"
  shows "(re_tail s \<noteq> []) = escape_at s"
proof -
  have "(re_tail s \<noteq> []) =
        (\<exists>r1 \<in> set (re_sp_star s). \<exists>r2 \<in> set (re_keyword r1). \<exists>r3 \<in> set (re_work r2).
         \<exists>r4 \<in> set (re_sp_star r3). lit '';'' r4 \<noteq> [])"
    by (simp add: re_tail_def)
  also have "\<dots> =
        (\<exists>r1 \<in> set (separators s). \<exists>r2 \<in> set (keyword r1). \<exists>r3 \<in> set (work_or_transaction r2).
         \<exists>r4 \<in> set (separators r3). starts_with '';'' r4)"
  proof (rule bex_set_cong)
    show "set (re_sp_star s) = set (separators s)"
      using assms by (rule re_sp_star_separators)
  next
    fix r1 assume "r1 \<in> set (separators s)"
    then have a1: "delimiters_apart r1" using assms by (rule separators_apart)
    show "(\<exists>r2 \<in> set (re_keyword r1). \<exists>r3 \<in> set (re_work r2).
             \<exists>r4 \<in> set (re_sp_star r3). lit '';'' r4 \<noteq> []) =
          (\<exists>r2 \<in> set (keyword r1). \<exists>r3 \<in> set (work_or_transaction r2).
             \<exists>r4 \<in> set (separators r3). starts_with '';'' r4)"
    proof (rule bex_set_cong)
      show "set (re_keyword r1) = set (keyword r1)"
        by (simp add: re_keyword_def keyword_def)
    next
      fix r2 assume "r2 \<in> set (keyword r1)"
      then have a2: "delimiters_apart r2" using a1 by (rule keyword_apart)
      show "(\<exists>r3 \<in> set (re_work r2). \<exists>r4 \<in> set (re_sp_star r3). lit '';'' r4 \<noteq> []) =
            (\<exists>r3 \<in> set (work_or_transaction r2). \<exists>r4 \<in> set (separators r3). starts_with '';'' r4)"
      proof (rule bex_set_cong)
        show "set (re_work r2) = set (work_or_transaction r2)"
          using a2 by (rule re_work_set)
      next
        fix r3 assume "r3 \<in> set (work_or_transaction r2)"
        then have a3: "delimiters_apart r3" using a2 by (rule work_or_transaction_apart)
        show "(\<exists>r4 \<in> set (re_sp_star r3). lit '';'' r4 \<noteq> []) =
              (\<exists>r4 \<in> set (separators r3). starts_with '';'' r4)"
        proof (rule bex_set_cong)
          show "set (re_sp_star r3) = set (separators r3)"
            using a3 by (rule re_sp_star_separators)
        next
          fix r4 show "(lit '';'' r4 \<noteq> []) = starts_with '';'' r4"
            by (rule lit_semicolon)
        qed
      qed
    qed
  qed
  finally show ?thesis by (simp add: escape_at_def)
qed

lemma regexp_escape_at:
  assumes "delimiters_apart s"
  shows "(SUSPICIOUS_QUERY_REGEXP prev s \<noteq> []) =
         ((prev = None \<or> prev = Some newline) \<and> escape_at s \<or>
          (\<exists>r. s = CHR '';'' # r \<and> escape_at r))"
proof (cases s)
  case Nil
  then show ?thesis
    using re_tail_escape_at [OF assms] by (auto simp: regexp_re_tail re_start_def lit_def)
next
  case (Cons c r)
  then have "delimiters_apart r" using assms by (auto dest: apart_Cons)
  then show ?thesis
    using re_tail_escape_at [OF assms] re_tail_escape_at [of r] Cons
    by (auto simp: regexp_re_tail re_start_def lit_def)
qed

lemma search_from_scan_from:
  "delimiters_apart s \<Longrightarrow>
   scan_from line_or_statement_start prev s =
     (prev = Some (CHR '';'') \<and> escape_at s \<or> search_from prev s)"
proof (induction s arbitrary: prev)
  case Nil
  then show ?case
    by (simp add: regexp_escape_at escape_at_Nil)
next
  case (Cons c r)
  then have "delimiters_apart r" by (auto dest: apart_Cons)
  then show ?case
    using Cons.IH [of "Some c"] regexp_escape_at [OF Cons.prems, of prev]
    by (auto simp: line_or_statement_start_def)
qed

text \<open>
  Claim C3, as amended. For every text in which neither \<^verbatim>\<open>**/\<close> nor \<^verbatim>\<open>//*\<close> occurs,
  \<open>check_for_suspicious_sql\<close> raises exactly when the text contains, at the start of the
  text, at the start of a line or right after a semicolon, a run of separators (single-line
  comments to the end of the line, balanced multi-line comments, whitespace, semicolons),
  then END, COMMIT, ROLLBACK or ABORT in any casing, then optionally at least one
  separator and WORK or TRANSACTION, then a run of separators and a semicolon; otherwise
  it returns True.
\<close>

theorem check_for_suspicious_sql_iff_scan:
  assumes "\<not> contains ''**/'' sql" and "\<not> contains ''//*'' sql"
  shows "check_for_suspicious_sql sql =
           (if spec_scan_lines sql
            then Inl (Exception (''SQL contains suspicious patterns, execution rejected: '' @ sql))
            else Inr True)"
proof -
  have "delimiters_apart sql" using assms by (simp add: delimiters_apart_def)
  then have "search sql = spec_scan_lines sql"
    using search_from_scan_from [of sql None] by (simp add: search_def spec_scan_lines_def)
  then show ?thesis
    by (simp add: check_for_suspicious_sql_def)
qed

lemma drop_table_apart:
  "\<not> contains ''**/'' ''SELECT 1; END; DROP TABLE x;''"
  "\<not> contains ''//*'' ''SELECT 1; END; DROP TABLE x;''"
  by code_simp+

lemma drop_table_scan: "spec_scan_lines ''SELECT 1; END; DROP TABLE x;''"
  by code_simp

theorem check_for_suspicious_sql_iff_scan_witness:
  "\<not> contains ''**/'' ''SELECT 1; END; DROP TABLE x;'' \<and>
   \<not> contains ''//*'' ''SELECT 1; END; DROP TABLE x;'' \<and>
   spec_scan_lines ''SELECT 1; END; DROP TABLE x;'' \<and>
   check_for_suspicious_sql ''SELECT 1; END; DROP TABLE x;'' =
     (if spec_scan_lines ''SELECT 1; END; DROP TABLE x;''
      then Inl (Exception (''SQL contains suspicious patterns, execution rejected: ''
                           @ ''SELECT 1; END; DROP TABLE x;''))
      else Inr True)"
  using check_for_suspicious_sql_iff_scan [OF drop_table_apart] drop_table_apart drop_table_scan
  by simp

text \<open>
  Claim C3 as stated fails: under flag \<^verbatim>\<open>m\<close> the pattern also starts at the beginning of
  every line. A keyword that opens the second line is found by the code, though it stands
  neither at the start of the text nor after a semicolon.
\<close>

theorem scan_line_start_counterexample:
  "check_for_suspicious_sql ''SELECT 1\<newline>END;'' =
     Inl (Exception (''SQL contains suspicious patterns, execution rejected: ''
                     @ ''SELECT 1\<newline>END;'')) \<and>
   \<not> spec_scan ''SELECT 1\<newline>END;''"
  by code_simp

text \<open>
  WORK and TRANSACTION count only after at least one separator; a keyword in the middle
  of a line is not at a boundary.
\<close>

lemma work_needs_separator:
  "check_for_suspicious_sql ''ENDWORK;'' = Inr True"
  "check_for_suspicious_sql ''end/**/work --x\<newline>;'' =
     Inl (Exception (''SQL contains suspicious patterns, execution rejected: ''
                     @ ''end/**/work --x\<newline>;''))"
  "check_for_suspicious_sql ''SELECT 1 END;'' = Inr True"
  by code_simp+

text \<open>
  Without the condition on \<^verbatim>\<open>**/\<close> the equivalence fails: the scan finds an escape that
  the regular expression misses.
\<close>

lemma apart_needed:
  "contains ''**/'' ''SELECT 1;/***/END;''"
  "spec_scan_lines ''SELECT 1;/***/END;''"
  "check_for_suspicious_sql ''SELECT 1;/***/END;'' = Inr True"
  by code_simp+

subsection \<open>Nested comments\<close>

lemma nested_comment_example:
  "re_mlc ''/* /* */ */END;'' = [''END;'']"
  "check_for_suspicious_sql ''SELECT 1;/* /* */ */END; DROP TABLE x;'' =
     Inl (Exception (''SQL contains suspicious patterns, execution rejected: ''
                     @ ''SELECT 1;/* /* */ */END; DROP TABLE x;''))"
  by code_simp+

text \<open>
  Claim C5 fails on the code. The alternative \<^verbatim>\<open>\*[^\/]\<close> of the comment pattern reads
  two characters, so in \<^verbatim>\<open>/***/\<close> it takes the star that belongs to the closing \<^verbatim>\<open>*/\<close>:
  the balanced nested comment \<^verbatim>\<open>/* /***/ */\<close> is not matched, and a text that hides END
  behind it passes the guard, while the depth-counting scanner reads the comment whole and
  finds the escape.
\<close>

theorem nested_comment_missed:
  "re_mlc ''/* /***/ */END; DROP TABLE x;'' = [] \<and>
   check_for_suspicious_sql ''SELECT 1;/* /***/ */END; DROP TABLE x;'' = Inr True \<and>
   balanced_comment ''/* /***/ */END; DROP TABLE x;'' = Some ''END; DROP TABLE x;'' \<and>
   spec_scan ''SELECT 1;/* /***/ */END; DROP TABLE x;''"
  by code_simp

text \<open>
  The same slip in \<^verbatim>\<open>\/[^\*]\<close> lets an unbalanced comment complete a match: in
  \<^verbatim>\<open>/* //* */\<close> the second \<^verbatim>\<open>/*\<close> opens a comment that is never closed.
\<close>

lemma unbalanced_comment_matched:
  "balanced_comment ''/* //* */END;'' = None"
  "re_mlc ''/* //* */END;'' = [''END;'']"
  "check_for_suspicious_sql ''SELECT 1;/* //* */END;'' =
     Inl (Exception (''SQL contains suspicious patterns, execution rejected: ''
                     @ ''SELECT 1;/* //* */END;''))"
  by code_simp+

section \<open>The two gates before the database\<close>

lemma check_for_suspicious_sql_cases:
  "check_for_suspicious_sql sql = Inr True \<or>
   check_for_suspicious_sql sql =
     Inl (Exception (''SQL contains suspicious patterns, execution rejected: '' @ sql))"
  by (simp add: check_for_suspicious_sql_def)

text \<open>
  Claim C4. The database is handed a query only when \<open>validate_sql\<close> has returned an
  accepting verdict and \<open>check_for_suspicious_sql\<close> has returned True, and the query is
  then the text that passed both; when either rejects (or the parser raises), no query
  reaches the database.
\<close>

theorem execute_sql_tool_gated:
  "Run_query q \<in> set (fst (execute_sql_tool parse run_query to_markdown ms sql)) \<longleftrightarrow>
     q = sql \<and> (\<exists>m. validate_sql parse sql = Inr (True, m)) \<and>
     check_for_suspicious_sql sql = Inr True"
proof (cases "validate_sql parse sql")
  case (Inl e)
  then show ?thesis by (simp add: execute_sql_tool_def)
next
  case (Inr v)
  obtain ok m where v: "v = (ok, m)" by (cases v)
  show ?thesis
  proof (cases ok)
    case False
    then show ?thesis using Inr v by (simp add: execute_sql_tool_def)
  next
    case True
    from check_for_suspicious_sql_cases [of sql] show ?thesis
    proof
      assume c: "check_for_suspicious_sql sql = Inr True"
      show ?thesis
        using Inr v True c
        by (cases "run_query sql") (auto simp: execute_sql_tool_def failure_events_def)
    next
      assume c: "check_for_suspicious_sql sql =
        Inl (Exception (''SQL contains suspicious patterns, execution rejected: '' @ sql))"
      show ?thesis
        using Inr v True c by (simp add: execute_sql_tool_def failure_events_def)
    qed
  qed
qed

lemma check_select_1: "check_for_suspicious_sql ''SELECT 1;'' = Inr True"
  by code_simp

theorem execute_sql_tool_gated_witness:
  "Run_query ''SELECT 1;'' \<in> set (fst (execute_sql_tool sample_parse sample_db id ''3'' ''SELECT 1;'')) \<and>
   validate_sql sample_parse ''SELECT 1;'' = Inr (True, ''This is a read-only SQL statement.'') \<and>
   check_for_suspicious_sql ''SELECT 1;'' = Inr True"
  using execute_sql_tool_gated [of "''SELECT 1;''" sample_parse sample_db id "''3''" "''SELECT 1;''"]
    validate_select_1 check_select_1
  by simp

lemma execute_sql_tool_rejected:
  "execute_sql_tool sample_parse sample_db id ''3''
     ''WITH x AS (DELETE FROM users RETURNING *) SELECT * FROM x;'' =
   ([Ctx_error (invalid_sql_message ''WITH x AS (DELETE FROM users RETURNING *) SELECT * FROM x;'')],
    Inl (ValueError (invalid_sql_message ''WITH x AS (DELETE FROM users RETURNING *) SELECT * FROM x;'')))"
  by (simp add: execute_sql_tool_def validate_with_delete)

end
